theory Spec2Isabelle
  imports Complex_Main
begin

section \<open>The GitHub client (src/lib/github.ts)\<close>

subsection \<open>Errors and their messages\<close>

text \<open>
  Every \<^verbatim>\<open>throw new Error(...)\<close> of the client is a constructor; \<open>Other\<close> stands for
  a rejection raised outside the client (a rejected \<^verbatim>\<open>fetch\<close>, a failing
  \<^verbatim>\<open>GitHubTokenManager.getToken\<close>, an error object of the database client) and
  carries its message.
\<close>

datatype error =
    TokenInvalid
  | RateLimitExceeded
  | ApiError nat string
  | Other string

definition digitChar :: "nat \<Rightarrow> char" where
  "digitChar d = ''0123456789'' ! (d mod 10)"

function showNat :: "nat \<Rightarrow> string" where
  "showNat n = (if n < 10 then [digitChar n] else showNat (n div 10) @ [digitChar (n mod 10)])"
  by pat_completeness auto
termination
  by (relation "measure (\<lambda>n. n)") auto

declare showNat.simps [simp del]

fun message :: "error \<Rightarrow> string" where
  "message TokenInvalid = ''GitHub token is invalid or expired''"
| "message RateLimitExceeded = ''rate limit exceeded''"
| "message (ApiError st txt) = ''GitHub API error: '' @ showNat st @ '' '' @ txt"
| "message (Other m) = m"

fun startsWith :: "string \<Rightarrow> string \<Rightarrow> bool" where
  "startsWith s [] = True"
| "startsWith [] (p # ps) = False"
| "startsWith (c # cs) (p # ps) = (c = p \<and> startsWith cs ps)"

fun includesStr :: "string \<Rightarrow> string \<Rightarrow> bool" where
  "includesStr [] p = startsWith [] p"
| "includesStr (c # cs) p = (startsWith (c # cs) p \<or> includesStr cs p)"

subsection \<open>Module state\<close>

text \<open>
  A \<^verbatim>\<open>RateLimiter\<close> object of the \<^verbatim>\<open>limiter\<close> package. Its configuration is what the
  constructor passes; \<open>tokensRemoved\<close> counts the tokens handed out by
  \<^verbatim>\<open>removeTokens\<close>. The bucket's refill clock belongs to the package and is not
  modelled.
\<close>

datatype interval = Second | Minute | Hour | Day

record rateLimiter =
  tokensPerInterval :: nat
  interval :: interval
  tokensRemoved :: nat

text \<open>What the code does to the outside, in the order it does it.\<close>

datatype event =
    RemoveTokens nat nat
  | Fetch string string
  | ClearToken
  | Redirect string

text \<open>
  The state outside a single call. \<open>limiterHeap\<close> holds the limiter objects, an
  address being an index into it; \<open>userLimiters\<close> is the module-level
  \<^verbatim>\<open>Map<string, RateLimiter>\<close>, from user id to the address of that user's object.
  \<open>cachedToken\<close> is the credential kept by \<^verbatim>\<open>GitHubTokenManager\<close>, \<open>origin\<close> and
  \<open>href\<close> are \<^verbatim>\<open>window.location\<close>, and \<open>mounted\<close> is the flag of the dashboard's
  first effect, set to false by its cleanup.
\<close>

record world =
  userLimiters :: "string \<rightharpoonup> nat"
  limiterHeap :: "rateLimiter list"
  cachedToken :: "string option"
  origin :: string
  href :: string
  mounted :: bool
  trace :: "event list"

definition emit :: "event \<Rightarrow> world \<Rightarrow> world" where
  "emit e w = w\<lparr>trace := trace w @ [e]\<rparr>"

text \<open>
  Modelled from the spec: \<^verbatim>\<open>GitHubTokenManager\<close> (src/lib/auth/github-token-manager)
  is not among the sources. The specification's credential provider has
  \<^verbatim>\<open>clearToken()\<close> clear the cached credential; the call is also recorded in the trace.
\<close>

definition clearToken :: "world \<Rightarrow> world" where
  "clearToken w = emit ClearToken (w\<lparr>cachedToken := None\<rparr>)"

text \<open>
  \<^verbatim>\<open>window.location.href = new URL('/auth/callback', window.location.origin).toString()\<close>
\<close>

definition redirectToAuth :: "world \<Rightarrow> world" where
  "redirectToAuth w =
     (let url = origin w @ ''/auth/callback'' in emit (Redirect url) (w\<lparr>href := url\<rparr>))"

text \<open>\<^verbatim>\<open>await limiter.removeTokens(n)\<close> on the limiter object at an address.\<close>

definition removeTokens :: "nat \<Rightarrow> nat \<Rightarrow> world \<Rightarrow> world" where
  "removeTokens a n w =
     emit (RemoveTokens a n)
       (if a < length (limiterHeap w)
        then w\<lparr>limiterHeap := (limiterHeap w)
               [a := (limiterHeap w ! a)\<lparr>tokensRemoved := tokensRemoved (limiterHeap w ! a) + n\<rparr>]\<rparr>
        else w)"

subsection \<open>Responses of the remote API\<close>

record 'b response =
  status :: nat
  statusText :: string
  rateLimitRemaining :: "string option"
  body :: 'b

text \<open>\<^verbatim>\<open>response.ok\<close> of the Fetch API: the status is in the range 200 to 299.\<close>

definition ok :: "('b, 'm) response_scheme \<Rightarrow> bool" where
  "ok r = (200 \<le> status r \<and> status r \<le> 299)"

text \<open>
  The two collaborators of the client that are not its own code: the network
  (\<^verbatim>\<open>fetch\<close>, which answers a URL with a response or rejects, and may answer
  differently as the world changes) and \<^verbatim>\<open>GitHubTokenManager.getToken\<close>. A
  rejection is \<open>Inl\<close> of its message.
\<close>

record 'b remote =
  fetch :: "string \<Rightarrow> world \<Rightarrow> string + 'b response"
  getToken :: "world \<Rightarrow> (string + string) \<times> world"

subsection \<open>GitHubClientImpl\<close>

record client =
  token :: string
  limiter :: nat

definition newLimiter :: rateLimiter where
  "newLimiter = \<lparr>tokensPerInterval = 5000, interval = Hour, tokensRemoved = 0\<rparr>"

text \<open>
  The constructor: a limiter object is allocated for the user id only when the map has
  none, and the client keeps a reference to the object the map holds.
\<close>

definition newClient :: "string \<Rightarrow> string \<Rightarrow> world \<Rightarrow> client \<times> world" where
  "newClient tok userId w =
     (case userLimiters w userId of
        Some a \<Rightarrow> (\<lparr>token = tok, limiter = a\<rparr>, w)
      | None \<Rightarrow>
          (let a = length (limiterHeap w) in
            (\<lparr>token = tok, limiter = a\<rparr>,
             w\<lparr>userLimiters := (userLimiters w)(userId \<mapsto> a),
               limiterHeap := limiterHeap w @ [newLimiter]\<rparr>)))"

text \<open>\<^verbatim>\<open>GitHubClientImpl.request\<close>, called with the default (empty) options.\<close>

definition request :: "'b remote \<Rightarrow> client \<Rightarrow> string \<Rightarrow> world \<Rightarrow> (error + 'b) \<times> world" where
  "request R c path w =
     (let w1 = removeTokens (limiter c) 1 w;
          url = ''https://api.github.com'' @ path;
          w2 = emit (Fetch url (token c)) w1
      in case fetch R url w2 of
           Inl m \<Rightarrow> (Inl (Other m), w2)
         | Inr r \<Rightarrow>
             if \<not> ok r then
               if status r = 401 then (Inl TokenInvalid, clearToken w2)
               else if status r = 403 \<and> rateLimitRemaining r = Some ''0''
                 then (Inl RateLimitExceeded, w2)
               else (Inl (ApiError (status r) (statusText r)), w2)
             else (Inr (body r), w2))"

text \<open>\<^verbatim>\<open>GitHubClientImpl.create\<close>\<close>

definition create :: "'b remote \<Rightarrow> string \<Rightarrow> world \<Rightarrow> (error + client) \<times> world" where
  "create R userId w =
     (case getToken R w of
        (Inr tok, w1) \<Rightarrow> (case newClient tok userId w1 of (c, w2) \<Rightarrow> (Inr c, w2))
      | (Inl m, w1) \<Rightarrow> (Inl (Other m), redirectToAuth (clearToken w1)))"

text \<open>The client's \<^verbatim>\<open>getRepository\<close> method.\<close>

definition clientGetRepository ::
  "'b remote \<Rightarrow> client \<Rightarrow> string \<Rightarrow> string \<Rightarrow> world \<Rightarrow> (error + 'b) \<times> world" where
  "clientGetRepository R c ownr repo w = request R c (''/repos/'' @ ownr @ ''/'' @ repo) w"

text \<open>
  The exported function \<^verbatim>\<open>getRepository(owner, repo)\<close> at the end of the module. Its
  \<^verbatim>\<open>catch\<close> redirects when the error's message contains \<^verbatim>\<open>token\<close> and rethrows.
\<close>

definition getRepositoryCatch :: "error \<Rightarrow> world \<Rightarrow> (error + 'b) \<times> world" where
  "getRepositoryCatch e w =
     (Inl e, if includesStr (message e) ''token'' then redirectToAuth w else w)"

definition getRepository ::
  "'b remote \<Rightarrow> string \<Rightarrow> string \<Rightarrow> world \<Rightarrow> (error + 'b) \<times> world" where
  "getRepository R ownr repo w =
     (case getToken R w of
        (Inl m, w1) \<Rightarrow> getRepositoryCatch (Other m) w1
      | (Inr tok, w1) \<Rightarrow>
          (let url = ''https://api.github.com/repos/'' @ ownr @ ''/'' @ repo;
               w2 = emit (Fetch url tok) w1
           in case fetch R url w2 of
                Inl m \<Rightarrow> getRepositoryCatch (Other m) w2
              | Inr r \<Rightarrow>
                  if \<not> ok r then
                    if status r = 401 then getRepositoryCatch TokenInvalid (clearToken w2)
                    else getRepositoryCatch (ApiError (status r) (statusText r)) w2
                  else (Inr (body r), w2)))"

section \<open>The dashboard (src/pages/Dashboard.tsx)\<close>

subsection \<open>View state\<close>

record DashboardStats =
  openIssues :: int
  trackedRepos :: int
  analyzedRepos :: int
  activeAutomations :: int

record toast =
  title :: string
  description :: string
  variant :: string

text \<open>
  The component's two \<^verbatim>\<open>useState\<close> cells and the toasts it has raised.
\<close>

record ui =
  stats :: DashboardStats
  refreshing :: "string \<rightharpoonup> bool"
  toasts :: "toast list"

definition initialStats :: DashboardStats where
  "initialStats = \<lparr>openIssues = 0, trackedRepos = 0, analyzedRepos = 0, activeAutomations = 0\<rparr>"

definition setStats :: "(DashboardStats \<Rightarrow> DashboardStats) \<Rightarrow> ui \<Rightarrow> ui" where
  "setStats f u = u\<lparr>stats := f (stats u)\<rparr>"

definition setRefreshing :: "string \<Rightarrow> bool \<Rightarrow> ui \<Rightarrow> ui" where
  "setRefreshing k b u = u\<lparr>refreshing := (refreshing u)(k \<mapsto> b)\<rparr>"

definition raiseToast :: "toast \<Rightarrow> ui \<Rightarrow> ui" where
  "raiseToast t u = u\<lparr>toasts := toasts u @ [t]\<rparr>"

text \<open>\<^verbatim>\<open>count || 0\<close> on a \<^verbatim>\<open>number | null\<close>.\<close>

definition orZero :: "int option \<Rightarrow> int" where
  "orZero c = (case c of None \<Rightarrow> 0 | Some n \<Rightarrow> n)"

text \<open>The updater functions handed to \<^verbatim>\<open>setStats\<close>, one per call site.\<close>

definition commitCounts ::
  "int option \<Rightarrow> int option \<Rightarrow> int option \<Rightarrow> DashboardStats \<Rightarrow> DashboardStats" where
  "commitCounts tr an ac prev =
     prev\<lparr>trackedRepos := orZero tr, analyzedRepos := orZero an, activeAutomations := orZero ac\<rparr>"

definition commitOpenIssues :: "int \<Rightarrow> DashboardStats \<Rightarrow> DashboardStats" where
  "commitOpenIssues totalOpenIssues prev = prev\<lparr>openIssues := totalOpenIssues\<rparr>"

definition commitRepoCounts :: "int option \<Rightarrow> int option \<Rightarrow> DashboardStats \<Rightarrow> DashboardStats" where
  "commitRepoCounts tr an prev = prev\<lparr>trackedRepos := orZero tr, analyzedRepos := orZero an\<rparr>"

definition commitAutomations :: "int option \<Rightarrow> DashboardStats \<Rightarrow> DashboardStats" where
  "commitAutomations ac prev = prev\<lparr>activeAutomations := orZero ac\<rparr>"

subsection \<open>Collaborators\<close>

record repository =
  owner :: string
  name :: string

definition repoId :: "repository \<Rightarrow> string" where
  "repoId repo = owner repo @ ''/'' @ name repo"

datatype query = CountRepositories | CountAnalyzed | CountActiveJobs | ListRepositories

record queryResult =
  qcount :: "int option"
  qdata :: "repository list option"
  qerror :: "string option"

text \<open>
  What the component awaits and does not implement. \<open>withGitHub E repo\<close> is
  \<^verbatim>\<open>await withGitHub(callback)\<close> for the callback of that repository (the hook
  \<^verbatim>\<open>useGitHub\<close> is not among the sources): it resolves to a count, resolves to
  \<^verbatim>\<open>null\<close>, or rejects. \<open>sleep E ms\<close> is \<^verbatim>\<open>await new Promise(r => setTimeout(r, ms))\<close>
  and \<open>supabase E q\<close> is one awaited database query. Each may change the world while
  the caller is suspended; the cleanup of the effect, which sets \<open>mounted\<close> to false,
  runs at such a point.
\<close>

record env =
  withGitHub :: "repository \<Rightarrow> world \<Rightarrow> (error + int option) \<times> world"
  sleep :: "nat \<Rightarrow> world \<Rightarrow> world"
  supabase :: "query \<Rightarrow> world \<Rightarrow> queryResult \<times> world"

subsection \<open>The aggregation loop\<close>

text \<open>
  The source has the loop twice, in \<^verbatim>\<open>fetchStats\<close> and in
  \<^verbatim>\<open>refreshStats.openIssues\<close>, with the same statements (the second also logs the
  error it catches); the definitions below are both.

  The local variables \<^verbatim>\<open>totalOpenIssues\<close> and \<^verbatim>\<open>failedRepos\<close>, with three ghost
  fields that the code does not have: \<open>attempts\<close> records every awaited call with its
  outcome, in order; \<open>batches\<close> counts the iterations of the outer loop and \<open>delays\<close>
  the awaited pauses.
\<close>

record run =
  totalOpenIssues :: int
  failedRepos :: "string list"
  attempts :: "(repository \<times> (error + int option)) list"
  batches :: nat
  delays :: nat

definition initRun :: run where
  "initRun = \<lparr>totalOpenIssues = 0, failedRepos = [], attempts = [], batches = 0, delays = 0\<rparr>"

definition batchSize :: nat where
  "batchSize = 2"

text \<open>The body of \<^verbatim>\<open>for (const repo of batch)\<close>: one \<^verbatim>\<open>try\<close>/\<^verbatim>\<open>catch\<close>.\<close>

definition processRepo :: "env \<Rightarrow> repository \<Rightarrow> run \<times> world \<Rightarrow> run \<times> world" where
  "processRepo E repo s =
     (case s of (a, w) \<Rightarrow>
        (case withGitHub E repo w of (res, w') \<Rightarrow>
           (let a' = a\<lparr>attempts := attempts a @ [(repo, res)]\<rparr> in
            case res of
              Inr (Some c) \<Rightarrow> (a'\<lparr>totalOpenIssues := totalOpenIssues a' + c\<rparr>, w')
            | Inr None \<Rightarrow> (a', w')
            | Inl e \<Rightarrow> (a'\<lparr>failedRepos := failedRepos a' @ [repoId repo]\<rparr>, w'))))"

fun processBatch :: "env \<Rightarrow> repository list \<Rightarrow> run \<times> world \<Rightarrow> run \<times> world" where
  "processBatch E [] s = s"
| "processBatch E (repo # rest) s = processBatch E rest (processRepo E repo s)"

text \<open>
  One iteration of the outer loop at index \<open>i\<close>: the slice
  \<^verbatim>\<open>repositories.slice(i, i + batchSize)\<close>, its items, and the pause when
  \<^verbatim>\<open>i + batchSize < repositories.length\<close>.
\<close>

definition slice :: "'a list \<Rightarrow> nat \<Rightarrow> nat \<Rightarrow> 'a list" where
  "slice xs i j = take (j - i) (drop i xs)"

definition batchStep :: "env \<Rightarrow> nat \<Rightarrow> repository list \<Rightarrow> nat \<Rightarrow> run \<times> world \<Rightarrow> run \<times> world" where
  "batchStep E B repositories i s =
     (case processBatch E (slice repositories i (i + B)) s of (a, w) \<Rightarrow>
        (let a' = a\<lparr>batches := batches a + 1\<rparr> in
         if i + B < length repositories
         then (a'\<lparr>delays := delays a' + 1\<rparr>, sleep E 1000 w)
         else (a', w)))"

text \<open>
  \<^verbatim>\<open>for (let i = 0; i < repositories.length; i += batchSize)\<close>, with the batch size a
  parameter. With a batch size of zero and a non-empty list the loop never ends; the
  result is then \<open>None\<close>.
\<close>

partial_function (option) batchLoop ::
  "env \<Rightarrow> nat \<Rightarrow> repository list \<Rightarrow> nat \<Rightarrow> run \<times> world \<Rightarrow> (run \<times> world) option" where
  "batchLoop E B repositories i s =
     (if i < length repositories
      then batchLoop E B repositories (i + B) (batchStep E B repositories i s)
      else Some s)"

declare batchLoop.simps [code]

subsection \<open>Reporting\<close>

fun join :: "string \<Rightarrow> string list \<Rightarrow> string" where
  "join sep [] = []"
| "join sep [x] = x"
| "join sep (x # y # ys) = x @ sep @ join sep (y # ys)"

definition warningToast :: "string list \<Rightarrow> toast" where
  "warningToast failed =
     \<lparr>title = ''Warning'',
      description = ''Failed to fetch issues for: '' @ join '', '' failed @
        ''. Try clicking the refresh button on the Open Issues card to get the correct total.'',
      variant = ''destructive''\<rparr>"

text \<open>
  The statements after the loop: the single \<^verbatim>\<open>setStats\<close> with the final total and the
  warning when \<^verbatim>\<open>failedRepos.length > 0\<close>.
\<close>

definition report :: "run \<Rightarrow> ui \<Rightarrow> ui" where
  "report a u =
     (let u1 = setStats (commitOpenIssues (totalOpenIssues a)) u in
      if length (failedRepos a) > 0 then raiseToast (warningToast (failedRepos a)) u1 else u1)"

subsection \<open>The initial fetch\<close>

text \<open>The \<^verbatim>\<open>catch\<close> of \<^verbatim>\<open>fetchStats\<close>.\<close>

definition fetchStatsCatch :: "ui \<times> world \<Rightarrow> ui \<times> world" where
  "fetchStatsCatch s =
     (case s of (u, w) \<Rightarrow>
        (if mounted w
         then raiseToast \<lparr>title = ''Error'',
                description = ''Failed to load some dashboard statistics.'',
                variant = ''destructive''\<rparr> u
         else u, w))"

text \<open>
  \<^verbatim>\<open>fetchStats\<close> of the first effect. An error object in a query's result is thrown
  to the \<^verbatim>\<open>catch\<close>. The date bound of the second query is part of the query and
  not modelled.
\<close>

definition fetchIssues :: "env \<Rightarrow> ui \<times> world \<Rightarrow> (ui \<times> world) option" where
  "fetchIssues E s =
     (case s of (u, w) \<Rightarrow>
        (case supabase E ListRepositories w of (q, w1) \<Rightarrow>
           if qerror q \<noteq> None then Some (fetchStatsCatch (u, w1))
           else (case qdata q of
                   None \<Rightarrow> Some (u, w1)
                 | Some repositories \<Rightarrow>
                     if \<not> mounted w1 then Some (u, w1)
                     else (case batchLoop E batchSize repositories 0 (initRun, w1) of
                             None \<Rightarrow> None
                           | Some (a, w2) \<Rightarrow>
                               Some (if mounted w2 then report a u else u, w2)))))"

definition fetchStats :: "env \<Rightarrow> ui \<times> world \<Rightarrow> (ui \<times> world) option" where
  "fetchStats E s =
     (case s of (u, w) \<Rightarrow>
        (case supabase E CountRepositories w of (q1, w1) \<Rightarrow>
           if qerror q1 \<noteq> None then Some (fetchStatsCatch (u, w1))
           else (case supabase E CountAnalyzed w1 of (q2, w2) \<Rightarrow>
             if qerror q2 \<noteq> None then Some (fetchStatsCatch (u, w2))
             else (case supabase E CountActiveJobs w2 of (q3, w3) \<Rightarrow>
               if qerror q3 \<noteq> None then Some (fetchStatsCatch (u, w3))
               else fetchIssues E
                      (if mounted w3
                       then setStats (commitCounts (qcount q1) (qcount q2) (qcount q3)) u
                       else u, w3)))))"

subsection \<open>The realtime handlers\<close>

definition repoChannelHandler :: "env \<Rightarrow> ui \<times> world \<Rightarrow> ui \<times> world" where
  "repoChannelHandler E s =
     (case s of (u, w) \<Rightarrow>
        (case supabase E CountRepositories w of (q1, w1) \<Rightarrow>
           (case supabase E CountAnalyzed w1 of (q2, w2) \<Rightarrow>
              (setStats (commitRepoCounts (qcount q1) (qcount q2)) u, w2))))"

definition jobsChannelHandler :: "env \<Rightarrow> ui \<times> world \<Rightarrow> ui \<times> world" where
  "jobsChannelHandler E s =
     (case s of (u, w) \<Rightarrow>
        (case supabase E CountActiveJobs w of (q, w1) \<Rightarrow>
           (setStats (commitAutomations (qcount q)) u, w1)))"

subsection \<open>The manual refresh of the open issues card\<close>

definition refreshFinally :: "ui \<Rightarrow> ui" where
  "refreshFinally u = setRefreshing ''openIssues'' False u"

definition refreshOpenIssues :: "env \<Rightarrow> ui \<times> world \<Rightarrow> (ui \<times> world) option" where
  "refreshOpenIssues E s =
     (case s of (u, w) \<Rightarrow>
        (let u1 = setRefreshing ''openIssues'' True u in
         case supabase E ListRepositories w of (q, w1) \<Rightarrow>
           if qerror q \<noteq> None
           then Some (refreshFinally
                        (raiseToast \<lparr>title = ''Error'',
                           description = ''Failed to refresh open issues count.'',
                           variant = ''destructive''\<rparr> u1), w1)
           else (case qdata q of
                   None \<Rightarrow> Some (refreshFinally u1, w1)
                 | Some repositories \<Rightarrow>
                     (case batchLoop E batchSize repositories 0 (initRun, w1) of
                        None \<Rightarrow> None
                      | Some (a, w2) \<Rightarrow> Some (refreshFinally (report a u1), w2)))))"

section \<open>The remote helper, as far as the specification fixes it\<close>

text \<open>The callback handed to \<^verbatim>\<open>withGitHub\<close>: \<^verbatim>\<open>response?.total_count || 0\<close>.\<close>

record searchResponse =
  total_count :: "int option"

definition issueCount :: "searchResponse option \<Rightarrow> int" where
  "issueCount resp = (case resp of None \<Rightarrow> 0 | Some r \<Rightarrow> orZero (total_count r))"

text \<open>
  Modelled from the spec: the hook \<^verbatim>\<open>useGitHub\<close> (its \<^verbatim>\<open>withGitHub\<close>) and the client
  method \<^verbatim>\<open>searchRepositoryIssues\<close> are not among the sources. The specification's
  remote client makes one rate-limited request per work item, with the query
  parameters \<^verbatim>\<open>state\<close> and \<^verbatim>\<open>per_page\<close>, expects a body with a \<^verbatim>\<open>total_count\<close>, and
  hands a failure to its caller. \<open>withClient\<close> is that call made through
  \<open>request\<close> by a client already constructed; the pause between batches changes
  nothing.
\<close>

definition searchRepositoryIssues ::
  "(searchResponse option) remote \<Rightarrow> client \<Rightarrow> string \<Rightarrow> string \<Rightarrow> world
     \<Rightarrow> (error + searchResponse option) \<times> world" where
  "searchRepositoryIssues R c ownr repo w =
     request R c (''/repos/'' @ ownr @ ''/'' @ repo @ ''/issues?state=open&per_page=1'') w"

definition withClient ::
  "(searchResponse option) remote \<Rightarrow> client \<Rightarrow> repository \<Rightarrow> world
     \<Rightarrow> (error + int option) \<times> world" where
  "withClient R c repo w =
     (case searchRepositoryIssues R c (owner repo) (name repo) w of
        (Inl e, w') \<Rightarrow> (Inl e, w')
      | (Inr resp, w') \<Rightarrow> (Inr (Some (issueCount resp)), w'))"

definition clientEnv ::
  "(searchResponse option) remote \<Rightarrow> client \<Rightarrow> (query \<Rightarrow> world \<Rightarrow> queryResult \<times> world) \<Rightarrow> env" where
  "clientEnv R c db = \<lparr>withGitHub = withClient R c, sleep = (\<lambda>ms w. w), supabase = db\<rparr>"

section \<open>Describing a run by its attempts\<close>

text \<open>
  What one awaited call contributes: its count when it resolved to a number, nothing
  when it resolved to \<^verbatim>\<open>null\<close> or rejected; and whether it rejected.
\<close>

fun countOf :: "error + int option \<Rightarrow> int" where
  "countOf (Inr (Some c)) = c"
| "countOf (Inr None) = 0"
| "countOf (Inl e) = 0"

fun threw :: "error + int option \<Rightarrow> bool" where
  "threw (Inl e) = True"
| "threw (Inr v) = False"

fun succeeded :: "error + int option \<Rightarrow> bool" where
  "succeeded (Inr (Some c)) = True"
| "succeeded (Inr None) = False"
| "succeeded (Inl e) = False"

definition sumCounts :: "(repository \<times> (error + int option)) list \<Rightarrow> int" where
  "sumCounts as = sum_list (map (\<lambda>x. countOf (snd x)) as)"

definition failedIds :: "(repository \<times> (error + int option)) list \<Rightarrow> string list" where
  "failedIds as = map (\<lambda>x. repoId (fst x)) (filter (\<lambda>x. threw (snd x)) as)"

text \<open>
  \<open>grows a a' new\<close>: from \<open>a\<close> to \<open>a'\<close> the attempts \<open>new\<close> were made, and the total
  and the failed list moved by exactly what those attempts contribute.
\<close>

definition grows :: "run \<Rightarrow> run \<Rightarrow> (repository \<times> (error + int option)) list \<Rightarrow> bool" where
  "grows a a' new =
     (attempts a' = attempts a @ new \<and>
      totalOpenIssues a' = totalOpenIssues a + sumCounts new \<and>
      failedRepos a' = failedRepos a @ failedIds new)"

text \<open>The number of batches of size \<open>B\<close> that cover \<open>n\<close> items, in natural arithmetic.\<close>

definition nBatches :: "nat \<Rightarrow> nat \<Rightarrow> nat" where
  "nBatches n B = (n + B - 1) div B"

section \<open>The calls of a run, told without the loop\<close>

text \<open>
  The specification's words for a run (its section 4.2): the items are processed one
  after another in list order, and after each batch except the last the aggregator
  pauses. \<open>callsFrom\<close> says this with no batches and no accumulator: the helper is
  awaited for each repository in turn, and after the call at position \<open>k\<close> the pause
  is awaited when \<open>pause k\<close> holds. It returns what the helper answered, in order, and
  the world the last call (or pause) left. \<open>pauseAfter B N\<close> is the specification's
  pause: after every \<open>B\<close>-th call that is not the last of \<open>N\<close>. These definitions are
  built from \<open>withGitHub E\<close> and \<open>sleep E\<close> alone and are what the loop of the source
  is compared with.
\<close>

fun callsFrom ::
  "env \<Rightarrow> (nat \<Rightarrow> bool) \<Rightarrow> nat \<Rightarrow> repository list \<Rightarrow> world
     \<Rightarrow> (error + int option) list \<times> world" where
  "callsFrom E pause k [] w = ([], w)"
| "callsFrom E pause k (repo # rest) w =
     (case withGitHub E repo w of (res, w1) \<Rightarrow>
        (case callsFrom E pause (Suc k) rest (if pause k then sleep E 1000 w1 else w1) of
           (rs, w2) \<Rightarrow> (res # rs, w2)))"

definition pauseAfter :: "nat \<Rightarrow> nat \<Rightarrow> nat \<Rightarrow> bool" where
  "pauseAfter B N k = (Suc k mod B = 0 \<and> Suc k < N)"

definition callsInOrder ::
  "env \<Rightarrow> nat \<Rightarrow> repository list \<Rightarrow> world \<Rightarrow> (error + int option) list \<times> world" where
  "callsInOrder E B repositories w =
     callsFrom E (pauseAfter B (length repositories)) 0 repositories w"

text \<open>
  The three counting queries at the head of \<^verbatim>\<open>fetchStats\<close>, as a condition: each was
  answered without an error object, with these counts, and they left this world.
\<close>

definition countsRead ::
  "env \<Rightarrow> world \<Rightarrow> ((int option \<times> int option \<times> int option) \<times> world) option" where
  "countsRead E w =
     (case supabase E CountRepositories w of (q1, w1) \<Rightarrow>
        if qerror q1 \<noteq> None then None
        else (case supabase E CountAnalyzed w1 of (q2, w2) \<Rightarrow>
          if qerror q2 \<noteq> None then None
          else (case supabase E CountActiveJobs w2 of (q3, w3) \<Rightarrow>
            if qerror q3 \<noteq> None then None
            else Some ((qcount q1, qcount q2, qcount q3), w3))))"

section \<open>Concrete inputs\<close>

definition r1 :: repository where "r1 = \<lparr>owner = ''a'', name = ''r1''\<rparr>"

definition r2 :: repository where "r2 = \<lparr>owner = ''a'', name = ''r2''\<rparr>"

definition r3 :: repository where "r3 = \<lparr>owner = ''a'', name = ''r3''\<rparr>"

definition world0 :: world where
  "world0 = \<lparr>userLimiters = Map.empty, limiterHeap = [], cachedToken = Some ''t0'',
     origin = ''https://app.example'', href = ''https://app.example/'', mounted = True,
     trace = []\<rparr>"

definition ui0 :: ui where
  "ui0 = \<lparr>stats = initialStats, refreshing = Map.empty, toasts = []\<rparr>"

text \<open>A database that lists the given repositories and counts them.\<close>

definition dbOf :: "repository list \<Rightarrow> query \<Rightarrow> world \<Rightarrow> queryResult \<times> world" where
  "dbOf repos q w =
     (\<lparr>qcount = Some (int (length repos)), qdata = Some repos, qerror = None\<rparr>, w)"

definition cachedGetToken :: "world \<Rightarrow> (string + string) \<times> world" where
  "cachedGetToken w =
     (case cachedToken w of Some t \<Rightarrow> (Inr t, w) | None \<Rightarrow> (Inl ''not signed in'', w))"

text \<open>
  A remote API that answers the issue search of \<open>a/r1\<close> with a count of 3 and every
  other request with status 401.
\<close>

definition remote401 :: "(searchResponse option) remote" where
  "remote401 =
     \<lparr>fetch = (\<lambda>url w.
        if url = ''https://api.github.com/repos/a/r1/issues?state=open&per_page=1''
        then Inr \<lparr>status = 200, statusText = ''OK'', rateLimitRemaining = Some ''4999'',
                  body = Some \<lparr>total_count = Some 3\<rparr>\<rparr>
        else Inr \<lparr>status = 401, statusText = ''Unauthorized'', rateLimitRemaining = None,
                  body = None\<rparr>),
      getToken = cachedGetToken\<rparr>"

text \<open>A client of user \<open>u1\<close>, and the world its construction leaves.\<close>

definition client1 :: client where
  "client1 = fst (newClient ''t0'' ''u1'' world0)"

definition world1 :: world where
  "world1 = snd (newClient ''t0'' ''u1'' world0)"

definition env401 :: env where
  "env401 = clientEnv remote401 client1 (dbOf [r1, r2, r3])"

text \<open>
  A helper under which the user leaves the page during the call for \<open>a/r1\<close> (the
  cleanup of the effect runs), the call for \<open>a/r2\<close> is rejected, and every other call
  resolves to 5.
\<close>

definition envLeave :: env where
  "envLeave =
     \<lparr>withGitHub = (\<lambda>repo w.
        if name repo = ''r1'' then (Inr (Some 4), w\<lparr>mounted := False\<rparr>)
        else if name repo = ''r2'' then (Inl (ApiError 500 ''Internal Server Error''), w)
        else (Inr (Some 5), w)),
      sleep = (\<lambda>ms w. w),
      supabase = dbOf [r1, r2, r3]\<rparr>"

text \<open>A remote API that answers every request with the repository's full name.\<close>

definition remoteOk :: "string remote" where
  "remoteOk =
     \<lparr>fetch = (\<lambda>url w. Inr \<lparr>status = 200, statusText = ''OK'',
                 rateLimitRemaining = Some ''4999'', body = ''a/r1''\<rparr>),
      getToken = cachedGetToken\<rparr>"

text \<open>A helper that resolves to \<^verbatim>\<open>null\<close> for \<open>a/r2\<close> and to 3 for every other repository.\<close>

definition envNull :: env where
  "envNull =
     \<lparr>withGitHub = (\<lambda>repo w. if name repo = ''r2'' then (Inr None, w) else (Inr (Some 3), w)),
      sleep = (\<lambda>ms w. w),
      supabase = dbOf [r1, r2, r3]\<rparr>"


text \<open>The runs that the loop makes on \<open>a/r1\<close>, \<open>a/r2\<close>, \<open>a/r3\<close> under these helpers.\<close>

definition runOk :: run where
  "runOk = \<lparr>totalOpenIssues = 9, failedRepos = [],
     attempts = [(r1, Inr (Some 3)), (r2, Inr (Some 3)), (r3, Inr (Some 3))],
     batches = 2, delays = 1\<rparr>"

definition run401 :: run where
  "run401 = \<lparr>totalOpenIssues = 3, failedRepos = [''a/r2'', ''a/r3''],
     attempts = [(r1, Inr (Some 3)), (r2, Inl TokenInvalid), (r3, Inl TokenInvalid)],
     batches = 2, delays = 1\<rparr>"

definition world401 :: world where
  "world401 = world1\<lparr>
     limiterHeap := [\<lparr>tokensPerInterval = 5000, interval = Hour, tokensRemoved = 3\<rparr>],
     cachedToken := None,
     trace := [RemoveTokens 0 1,
       Fetch ''https://api.github.com/repos/a/r1/issues?state=open&per_page=1'' ''t0'',
       RemoveTokens 0 1,
       Fetch ''https://api.github.com/repos/a/r2/issues?state=open&per_page=1'' ''t0'',
       ClearToken,
       RemoveTokens 0 1,
       Fetch ''https://api.github.com/repos/a/r3/issues?state=open&per_page=1'' ''t0'',
       ClearToken]\<rparr>"


definition worldLeave :: world where
  "worldLeave = world1\<lparr>mounted := False\<rparr>"

definition uiLeave :: ui where
  "uiLeave = \<lparr>stats = initialStats\<lparr>openIssues := 9\<rparr>,
     refreshing = [''openIssues'' \<mapsto> False],
     toasts = [warningToast [''a/r2'']]\<rparr>"

definition runNull :: run where
  "runNull = \<lparr>totalOpenIssues = 6, failedRepos = [],
     attempts = [(r1, Inr (Some 3)), (r2, Inr None), (r3, Inr (Some 3))],
     batches = 2, delays = 1\<rparr>"



text \<open>A helper whose calls resolve to 3, 5 and 7 for \<open>a/r1\<close>, \<open>a/r2\<close> and \<open>a/r3\<close>.\<close>

definition envCounts :: env where
  "envCounts =
     \<lparr>withGitHub = (\<lambda>repo w.
        if name repo = ''r1'' then (Inr (Some 3), w)
        else if name repo = ''r2'' then (Inr (Some 5), w)
        else (Inr (Some 7), w)),
      sleep = (\<lambda>ms w. w),
      supabase = dbOf [r1, r2, r3]\<rparr>"

text \<open>
  A helper whose call for \<open>a/r1\<close> is rejected for the rate limit and whose call for
  \<open>a/r3\<close> is rejected with a status 500, while \<open>a/r2\<close> resolves to 4.
\<close>

definition envFail :: env where
  "envFail =
     \<lparr>withGitHub = (\<lambda>repo w.
        if name repo = ''r1'' then (Inl RateLimitExceeded, w)
        else if name repo = ''r2'' then (Inr (Some 4), w)
        else (Inl (ApiError 500 ''Internal Server Error''), w)),
      sleep = (\<lambda>ms w. w),
      supabase = dbOf [r1, r2, r3]\<rparr>"

text \<open>What the database of these inputs answers to the listing query.\<close>

definition listed :: queryResult where
  "listed = \<lparr>qcount = Some 3, qdata = Some [r1, r2, r3], qerror = None\<rparr>"

section \<open>The loop, characterised\<close>

lemma grows_refl: "grows a a []"
  by (simp add: grows_def sumCounts_def failedIds_def)

lemma grows_trans: "grows a b xs \<Longrightarrow> grows b c ys \<Longrightarrow> grows a c (xs @ ys)"
  by (simp add: grows_def sumCounts_def failedIds_def)

lemma processRepo_grows:
  assumes "processRepo E repo (a, w) = (a', w')"
  shows "\<exists>res. withGitHub E repo w = (res, w') \<and> grows a a' [(repo, res)] \<and>
           batches a' = batches a \<and> delays a' = delays a"
  using assms
  by (auto simp: processRepo_def grows_def sumCounts_def failedIds_def Let_def
           split: prod.splits sum.splits option.splits)

lemma processBatch_grows:
  "processBatch E batch (a, w) = (a', w') \<Longrightarrow>
     \<exists>new. grows a a' new \<and> map fst new = batch \<and> batches a' = batches a \<and> delays a' = delays a"
proof (induction batch arbitrary: a w)
  case Nil
  then show ?case using grows_refl by auto
next
  case (Cons repo rest)
  obtain a1 w1 where s1: "processRepo E repo (a, w) = (a1, w1)"
    by (cases "processRepo E repo (a, w)")
  from processRepo_grows [OF s1] obtain res where
    r: "grows a a1 [(repo, res)]" "batches a1 = batches a" "delays a1 = delays a"
    by blast
  from Cons.prems s1 have "processBatch E rest (a1, w1) = (a', w')" by simp
  from Cons.IH [OF this] obtain new where
    n: "grows a1 a' new" "map fst new = rest" "batches a' = batches a1" "delays a' = delays a1"
    by blast
  from grows_trans [OF r(1) n(1)] r n show ?case
    by (intro exI [of _ "(repo, res) # new"]) simp
qed

lemma batchStep_grows:
  assumes "batchStep E B repositories i (a, w) = (a', w')"
  shows "\<exists>new. grows a a' new \<and> map fst new = take B (drop i repositories) \<and>
           batches a' = batches a + 1 \<and>
           delays a' = delays a + (if i + B < length repositories then 1 else 0)"
proof -
  obtain a1 w1 where s1: "processBatch E (slice repositories i (i + B)) (a, w) = (a1, w1)"
    by (cases "processBatch E (slice repositories i (i + B)) (a, w)")
  from processBatch_grows [OF s1] obtain new where
    n: "grows a a1 new" "map fst new = slice repositories i (i + B)"
       "batches a1 = batches a" "delays a1 = delays a"
    by blast
  from assms s1 have "grows a1 a' [] \<and> batches a' = batches a1 + 1 \<and>
      delays a' = delays a1 + (if i + B < length repositories then 1 else 0)"
    by (auto simp: batchStep_def Let_def grows_def sumCounts_def failedIds_def split: if_splits)
  with n grows_trans [of a a1 new a' "[]"] show ?thesis
    by (intro exI [of _ new]) (simp add: slice_def)
qed

lemma nBatches_zero: "0 < B \<Longrightarrow> nBatches 0 B = 0"
  by (simp add: nBatches_def)

lemma nBatches_step:
  assumes "0 < B" "0 < n"
  shows "nBatches n B = Suc (nBatches (n - B) B)"
proof (cases "B \<le> n")
  case True
  then have "n + B - 1 = (n - B + B - 1) + B" using assms by simp
  then have "(n + B - 1) div B = (n - B + B - 1) div B + 1"
    using assms by (metis div_add_self2 less_numeral_extra(3))
  then show ?thesis by (simp add: nBatches_def)
next
  case False
  then have a: "n - B = 0" by simp
  have "B \<le> n + B - 1" "n + B - 1 < 2 * B" using assms False by auto
  then have "(n + B - 1) div B = 1"
    using assms by (simp add: div_nat_eqI)
  with a assms show ?thesis by (simp add: nBatches_def)
qed


lemma batchLoop_grows:
  assumes "0 < B"
  shows "\<exists>a' w' new. batchLoop E B repositories i (a, w) = Some (a', w') \<and>
           grows a a' new \<and> map fst new = drop i repositories \<and>
           batches a' = batches a + nBatches (length repositories - i) B \<and>
           delays a' = delays a + (nBatches (length repositories - i) B - 1)"
proof (induction "length repositories - i" arbitrary: i a w rule: less_induct)
  case less
  show ?case
  proof (cases "i < length repositories")
    case False
    then show ?thesis
      using grows_refl [of a] nBatches_zero [OF assms]
      by (subst batchLoop.simps) simp
  next
    case True
    obtain a1 w1 where s1: "batchStep E B repositories i (a, w) = (a1, w1)"
      by (cases "batchStep E B repositories i (a, w)")
    from batchStep_grows [OF s1] obtain new1 where
      n1: "grows a a1 new1" "map fst new1 = take B (drop i repositories)"
          "batches a1 = batches a + 1"
          "delays a1 = delays a + (if i + B < length repositories then 1 else 0)"
      by blast
    from True assms have "length repositories - (i + B) < length repositories - i" by simp
    from less [OF this, of a1 w1] obtain a' w' new2 where
      n2: "batchLoop E B repositories (i + B) (a1, w1) = Some (a', w')"
          "grows a1 a' new2" "map fst new2 = drop (i + B) repositories"
          "batches a' = batches a1 + nBatches (length repositories - (i + B)) B"
          "delays a' = delays a1 + (nBatches (length repositories - (i + B)) B - 1)"
      by blast
    have loop: "batchLoop E B repositories i (a, w) = Some (a', w')"
      using True s1 n2(1) by (subst batchLoop.simps) simp
    have cover: "map fst (new1 @ new2) = drop i repositories"
      using n1(2) n2(3) by (simp add: add.commute [of i B] flip: drop_drop)
    have nb: "nBatches (length repositories - i) B = Suc (nBatches (length repositories - (i + B)) B)"
      using nBatches_step [of B "length repositories - i"] True assms by simp
    have z: "\<not> i + B < length repositories \<Longrightarrow> nBatches (length repositories - (i + B)) B = 0"
      using nBatches_zero [OF assms] by simp
    have p: "i + B < length repositories \<Longrightarrow> 0 < nBatches (length repositories - (i + B)) B"
      using nBatches_step [OF assms, of "length repositories - (i + B)"] by simp
    show ?thesis
      using loop grows_trans [OF n1(1) n2(2)] cover n1 n2 nb z p
      by (intro exI [of _ a'] exI [of _ w'] exI [of _ "new1 @ new2"]) auto
  qed
qed

lemma batchLoop_run:
  assumes "0 < B"
  shows "\<exists>a w'. batchLoop E B repositories 0 (initRun, w) = Some (a, w') \<and>
           map fst (attempts a) = repositories \<and>
           totalOpenIssues a = sumCounts (attempts a) \<and>
           failedRepos a = failedIds (attempts a) \<and>
           batches a = nBatches (length repositories) B \<and>
           delays a = nBatches (length repositories) B - 1"
proof -
  from batchLoop_grows [OF assms, of E repositories 0 initRun w] obtain a w' new where
    "batchLoop E B repositories 0 (initRun, w) = Some (a, w')" "grows initRun a new"
    "map fst new = drop 0 repositories"
    "batches a = batches initRun + nBatches (length repositories - 0) B"
    "delays a = delays initRun + (nBatches (length repositories - 0) B - 1)"
    by blast
  then show ?thesis
    by (intro exI [of _ a] exI [of _ w']) (simp add: grows_def initRun_def)
qed

text \<open>With a batch size of zero the loop does not end on a list it has not exhausted.\<close>

lemma batchLoop_never_Some:
  assumes "batchLoop E B repositories i s = Some r"
  shows "\<not> (B = 0 \<and> i < length repositories)"
proof (rule batchLoop.raw_induct
    [where P = "\<lambda>E B repositories i s r. \<not> (B = 0 \<and> i < length repositories)", OF _ assms])
  fix f E' B' rs i' s' r'
  assume ih: "\<And>E B repositories i s r.
      f E B repositories i s = Some r \<Longrightarrow> \<not> (B = 0 \<and> i < length repositories)"
    and st: "(if i' < length rs then f E' B' rs (i' + B') (batchStep E' B' rs i' s')
              else Some s') = Some r'"
  show "\<not> (B' = 0 \<and> i' < length rs)"
  proof
    assume c: "B' = 0 \<and> i' < length rs"
    with st have "f E' 0 rs i' (batchStep E' 0 rs i' s') = Some r'" by simp
    from ih [OF this] c show False by simp
  qed
qed

lemma batchLoop_diverges:
  assumes "i < length repositories"
  shows "batchLoop E 0 repositories i s = None"
proof (cases "batchLoop E 0 repositories i s")
  case None
  then show ?thesis .
next
  case (Some r)
  from batchLoop_never_Some [OF this] assms show ?thesis by simp
qed

lemma batchSize_pos: "0 < batchSize"
  by (simp add: batchSize_def)

lemma filter_index:
  assumes "i < length xs" "P (xs ! i)"
  shows "length (filter P (take i xs)) < length (filter P xs) \<and>
         filter P xs ! length (filter P (take i xs)) = xs ! i"
proof -
  have "xs = take i xs @ xs ! i # drop (Suc i) xs"
    using assms(1) by (rule id_take_nth_drop)
  then have "filter P xs = filter P (take i xs) @ xs ! i # filter P (drop (Suc i) xs)"
    using assms(2) by (metis filter.simps(2) filter_append)
  then show ?thesis
    by (simp add: nth_append)
qed

lemma filter_index_mono:
  assumes "i < j" "j \<le> length xs" "P (xs ! i)"
  shows "length (filter P (take i xs)) < length (filter P (take j xs))"
proof -
  have "i < length (take j xs)" "P (take j xs ! i)" "take i (take j xs) = take i xs"
    using assms by (simp_all add: min_def)
  with filter_index [of i "take j xs" P] show ?thesis by simp
qed

lemmas run_defs = batchStep_def slice_def batchSize_def processRepo_def initRun_def repoId_def
  r1_def r2_def r3_def

lemmas client_defs = clientEnv_def withClient_def searchRepositoryIssues_def request_def
  removeTokens_def emit_def clearToken_def ok_def issueCount_def orZero_def
  client1_def world1_def newClient_def world0_def newLimiter_def

lemma run401_eval:
  "batchLoop env401 batchSize [r1, r2, r3] 0 (initRun, world1) = Some (run401, world401)"
  by (simp add: batchLoop.simps run_defs env401_def client_defs remote401_def run401_def
      world401_def Let_def)

lemma runNull_eval:
  "batchLoop envNull batchSize [r1, r2, r3] 0 (initRun, world1) = Some (runNull, world1)"
  by (simp add: batchLoop.simps run_defs envNull_def runNull_def)

subsection \<open>The warning names every failed repository\<close>

lemma startsWith_append: "startsWith (p @ s) p"
  by (induction p) simp_all

lemma startsWith_append_right: "startsWith s p \<Longrightarrow> startsWith (s @ t) p"
  by (induction s p rule: startsWith.induct) simp_all

lemma includesStr_empty: "includesStr s []"
  by (cases s) simp_all

lemma includesStr_prefix: "includesStr (p @ s) p"
proof (cases "p @ s")
  case Nil
  then show ?thesis by simp
next
  case (Cons c cs)
  have "startsWith (p @ s) p" by (rule startsWith_append)
  with Cons show ?thesis by simp
qed

lemma includesStr_append_left: "includesStr s p \<Longrightarrow> includesStr (xs @ s) p"
  by (induction xs) simp_all

lemma includesStr_append_right: "includesStr s p \<Longrightarrow> includesStr (s @ t) p"
proof (induction s)
  case Nil
  then have "p = []" by (cases p) simp_all
  then show ?case by (simp add: includesStr_empty)
next
  case (Cons c cs)
  then show ?case using startsWith_append_right [of "c # cs" p t] by auto
qed

lemma join_includes: "x \<in> set xs \<Longrightarrow> includesStr (join sep xs) x"
proof (induction sep xs rule: join.induct)
  case (1 sep)
  then show ?case by simp
next
  case (2 sep y)
  then show ?case using includesStr_prefix [of y "[]"] by simp
next
  case (3 sep y z zs)
  show ?case
  proof (cases "x = y")
    case True
    then show ?thesis using includesStr_prefix [of y "sep @ join sep (z # zs)"] by simp
  next
    case False
    with 3 have "includesStr (join sep (z # zs)) x" by simp
    then have "includesStr ((y @ sep) @ join sep (z # zs)) x"
      by (rule includesStr_append_left)
    then show ?thesis by simp
  qed
qed

lemma warning_names: "x \<in> set failed \<Longrightarrow> includesStr (description (warningToast failed)) x"
proof -
  assume "x \<in> set failed"
  then have "includesStr (join '', '' failed) x" by (rule join_includes)
  then have "includesStr (join '', '' failed @
      ''. Try clicking the refresh button on the Open Issues card to get the correct total.'') x"
    by (rule includesStr_append_right)
  then have "includesStr (''Failed to fetch issues for: '' @ (join '', '' failed @
      ''. Try clicking the refresh button on the Open Issues card to get the correct total.'')) x"
    by (rule includesStr_append_left)
  then show ?thesis by (simp add: warningToast_def)
qed

lemma report_toasts:
  "toasts (report a u) = toasts u @ (if failedRepos a = [] then [] else [warningToast (failedRepos a)])"
  by (simp add: report_def setStats_def raiseToast_def)

lemma report_stats: "stats (report a u) = commitOpenIssues (totalOpenIssues a) (stats u)"
  by (simp add: report_def setStats_def raiseToast_def Let_def)

subsection \<open>A request answered with status 401\<close>

lemma request_unauthorized:
  assumes "fetch R (''https://api.github.com'' @ path)
             (emit (Fetch (''https://api.github.com'' @ path) (token c))
                (removeTokens (limiter c) 1 v)) = Inr r"
    and "status r = 401"
  shows "request R c path v =
           (Inl TokenInvalid,
            clearToken (emit (Fetch (''https://api.github.com'' @ path) (token c))
                         (removeTokens (limiter c) 1 v)))"
  using assms by (simp add: request_def Let_def ok_def)


lemma sumCounts_append: "sumCounts (xs @ ys) = sumCounts xs + sumCounts ys"
  by (simp add: sumCounts_def)

lemma failedIds_append: "failedIds (xs @ ys) = failedIds xs @ failedIds ys"
  by (simp add: failedIds_def)

subsection \<open>The entry points return\<close>

lemma refreshOpenIssues_returns: "\<exists>s'. refreshOpenIssues E s = Some s'"
proof -
  obtain u w where s: "s = (u, w)" by (cases s)
  obtain q w1 where q: "supabase E ListRepositories w = (q, w1)"
    by (cases "supabase E ListRepositories w")
  show ?thesis
  proof (cases "qerror q = None \<and> qdata q \<noteq> None")
    case False
    then show ?thesis using s q
      by (auto simp: refreshOpenIssues_def Let_def split: option.splits)
  next
    case True
    then obtain repositories where d: "qdata q = Some repositories" by auto
    from batchLoop_run [OF batchSize_pos, of E repositories w1] obtain a w2 where
      "batchLoop E batchSize repositories 0 (initRun, w1) = Some (a, w2)"
      by blast
    with True s q d show ?thesis
      by (simp add: refreshOpenIssues_def Let_def)
  qed
qed

lemma fetchIssues_returns: "\<exists>s'. fetchIssues E s = Some s'"
proof -
  obtain u w where s: "s = (u, w)" by (cases s)
  obtain q w1 where q: "supabase E ListRepositories w = (q, w1)"
    by (cases "supabase E ListRepositories w")
  show ?thesis
  proof (cases "qerror q = None \<and> qdata q \<noteq> None \<and> mounted w1")
    case False
    then show ?thesis using s q
      by (auto simp: fetchIssues_def split: option.splits)
  next
    case True
    then obtain repositories where d: "qdata q = Some repositories" by auto
    from batchLoop_run [OF batchSize_pos, of E repositories w1] obtain a w2 where
      "batchLoop E batchSize repositories 0 (initRun, w1) = Some (a, w2)"
      by blast
    with True s q d show ?thesis
      by (simp add: fetchIssues_def)
  qed
qed

lemma fetchStats_returns: "\<exists>s'. fetchStats E s = Some s'"
  using fetchIssues_returns [of E]
  by (simp add: fetchStats_def split: prod.splits)

subsection \<open>The liveness check of the initial fetch\<close>

lemma fetchIssues_guarded:
  assumes "fetchIssues E (u, w) = Some (u', w')" and "\<not> mounted w'"
  shows "u' = u"
  using assms
  by (auto simp: fetchIssues_def fetchStatsCatch_def split: prod.splits if_splits option.splits)

subsection \<open>The limiter of a client\<close>

lemma request_takes_one_token:
  "\<exists>rest. trace (snd (request R c path w)) =
      trace w @ RemoveTokens (limiter c) 1 #
        Fetch (''https://api.github.com'' @ path) (token c) # rest \<and>
      (rest = [] \<or> rest = [ClearToken])"
  by (auto simp: request_def Let_def removeTokens_def emit_def clearToken_def
      split: sum.splits)

lemma request_counts_token:
  assumes "limiter c < length (limiterHeap w)"
  shows "tokensRemoved (limiterHeap (snd (request R c path w)) ! limiter c) =
           tokensRemoved (limiterHeap w ! limiter c) + 1"
  using assms
  by (auto simp: request_def Let_def removeTokens_def emit_def clearToken_def
      split: sum.splits)

lemma newClient_shares_limiter:
  "limiter (fst (newClient t2 userId (snd (newClient t1 userId w)))) =
     limiter (fst (newClient t1 userId w))"
  by (simp add: newClient_def Let_def split: option.splits)

lemma newClient_keeps_limiters:
  assumes "userLimiters w userId = Some a"
  shows "userLimiters (snd (newClient t other w)) userId = Some a \<and>
         take (length (limiterHeap w)) (limiterHeap (snd (newClient t other w))) = limiterHeap w"
  using assms by (auto simp: newClient_def Let_def split: option.splits)

lemma create_constructs:
  assumes "getToken R w = (Inr tok, w1)"
  shows "create R userId w = (Inr (fst (newClient tok userId w1)), snd (newClient tok userId w1))"
  using assms by (simp add: create_def split: prod.splits)

lemma create_without_token:
  assumes "getToken R w = (Inl m, w1)"
  shows "create R userId w = (Inl (Other m), redirectToAuth (clearToken w1))"
  using assms by (simp add: create_def)

lemma getRepository_leaves_limiters:
  "limiterHeap (snd (getRepository R ownr repo w)) = limiterHeap (snd (getToken R w))"
  by (auto simp: getRepository_def getRepositoryCatch_def Let_def emit_def clearToken_def
      redirectToAuth_def split: prod.splits sum.splits)

section \<open>The loop makes the calls in order\<close>

lemma callsFrom_length: "callsFrom E P k xs w = (rs, w') \<Longrightarrow> length rs = length xs"
  by (induction xs arbitrary: k w rs) (auto split: prod.splits)

lemma callsFrom_append:
  "callsFrom E P k (xs @ ys) w =
     (case callsFrom E P k xs w of (rs1, w1) \<Rightarrow>
        (case callsFrom E P (k + length xs) ys w1 of (rs2, w2) \<Rightarrow> (rs1 @ rs2, w2)))"
  by (induction xs arbitrary: k w) (auto split: prod.splits)

lemma processBatch_calls:
  assumes "xs \<noteq> []"
    and "\<forall>t. Suc t < length xs \<longrightarrow> \<not> P (k + t)"
    and "processBatch E xs (a, w) = (a', w')"
  shows "\<exists>rs. callsFrom E P k xs w =
             (rs, if P (k + length xs - 1) then sleep E 1000 w' else w') \<and>
           grows a a' (zip xs rs) \<and> batches a' = batches a \<and> delays a' = delays a"
  using assms
proof (induction xs arbitrary: k a w)
  case Nil
  then show ?case by simp
next
  case (Cons x xs)
  obtain a1 w1 where s1: "processRepo E x (a, w) = (a1, w1)"
    by (cases "processRepo E x (a, w)")
  from processRepo_grows [OF s1] obtain res where
    r: "withGitHub E x w = (res, w1)" "grows a a1 [(x, res)]"
       "batches a1 = batches a" "delays a1 = delays a"
    by blast
  show ?case
  proof (cases xs)
    case Nil
    with Cons.prems(3) s1 have "a' = a1" "w' = w1" by simp_all
    with r Nil show ?thesis by simp
  next
    case (Cons y ys)
    then have ne: "xs \<noteq> []" by simp
    from Cons.prems(2) Cons have nk: "\<not> P k" by fastforce
    have sh: "\<forall>t. Suc t < length xs \<longrightarrow> \<not> P (Suc k + t)"
      using Cons.prems(2) by fastforce
    from Cons.prems(3) s1 have "processBatch E xs (a1, w1) = (a', w')" by simp
    from Cons.IH [OF ne sh this] obtain rs where
      n: "callsFrom E P (Suc k) xs w1 =
            (rs, if P (Suc k + length xs - 1) then sleep E 1000 w' else w')"
         "grows a1 a' (zip xs rs)" "batches a' = batches a1" "delays a' = delays a1"
      by blast
    from grows_trans [OF r(2) n(2)] r n nk ne show ?thesis
      by (intro exI [of _ "res # rs"]) simp
  qed
qed

lemma batchStep_calls:
  assumes "0 < B" and "B dvd i" and "i < length repositories"
    and "batchStep E B repositories i (a, w) = (a', w')"
  shows "\<exists>rs. callsFrom E (pauseAfter B (length repositories)) i
                 (take B (drop i repositories)) w = (rs, w') \<and>
           grows a a' (zip (take B (drop i repositories)) rs)"
proof -
  let ?xs = "take B (drop i repositories)"
  let ?N = "length repositories"
  obtain a1 w1 where s1: "processBatch E ?xs (a, w) = (a1, w1)"
    by (cases "processBatch E ?xs (a, w)")
  have ne: "?xs \<noteq> []" using assms(1,3) by simp
  have len: "length ?xs = min B (?N - i)" by simp
  have quiet: "\<forall>t. Suc t < length ?xs \<longrightarrow> \<not> pauseAfter B ?N (i + t)"
  proof (intro allI impI)
    fix t assume "Suc t < length ?xs"
    then have "Suc t < B" by simp
    moreover have "Suc (i + t) mod B = Suc t mod B"
      using assms(2) by (metis add_Suc_right dvd_eq_mod_eq_0 mod_add_left_eq add_0 )
    ultimately show "\<not> pauseAfter B ?N (i + t)"
      by (simp add: pauseAfter_def)
  qed
  have last: "pauseAfter B ?N (i + length ?xs - 1) = (i + B < ?N)"
  proof (cases "i + B < ?N")
    case True
    then have "length ?xs = B" by simp
    moreover have "(i + B) mod B = 0" using assms(2) by simp
    ultimately show ?thesis using True assms(1) by (simp add: pauseAfter_def)
  next
    case False
    then have "i + length ?xs = ?N" using assms(3) by simp
    moreover have "0 < length ?xs" using ne by simp
    ultimately have e: "Suc (i + length ?xs - 1) = ?N" by linarith
    have "\<not> pauseAfter B ?N (i + length ?xs - 1)"
      unfolding pauseAfter_def e by simp
    with False show ?thesis by blast
  qed
  from processBatch_calls [OF ne quiet s1] obtain rs where
    c: "callsFrom E (pauseAfter B ?N) i ?xs w =
          (rs, if pauseAfter B ?N (i + length ?xs - 1) then sleep E 1000 w1 else w1)"
       "grows a a1 (zip ?xs rs)"
    by blast
  from assms(4) s1 have e: "w' = (if i + B < ?N then sleep E 1000 w1 else w1)"
    "grows a1 a' []"
    by (auto simp: batchStep_def slice_def Let_def grows_def sumCounts_def failedIds_def
        split: if_splits)
  from grows_trans [OF c(2) e(2)] c(1) e(1) last show ?thesis
    by (intro exI [of _ rs]) simp
qed

lemma batchLoop_calls_from:
  assumes "0 < B"
  shows "B dvd i \<Longrightarrow>
         callsFrom E (pauseAfter B (length repositories)) i (drop i repositories) w = (rs, w') \<Longrightarrow>
         \<exists>a'. batchLoop E B repositories i (a, w) = Some (a', w') \<and>
               grows a a' (zip (drop i repositories) rs)"
proof (induction "length repositories - i" arbitrary: i a w rs w' rule: less_induct)
  case less
  let ?N = "length repositories"
  let ?P = "pauseAfter B ?N"
  show ?case
  proof (cases "i < ?N")
    case False
    with less.prems(2) have "rs = []" "w' = w" by simp_all
    with False grows_refl [of a] show ?thesis
      by (subst batchLoop.simps) simp
  next
    case True
    let ?xs = "take B (drop i repositories)"
    let ?ys = "drop (i + B) repositories"
    obtain a1 w1 where s1: "batchStep E B repositories i (a, w) = (a1, w1)"
      by (cases "batchStep E B repositories i (a, w)")
    from batchStep_calls [OF assms less.prems(1) True s1] obtain rs1 where
      c1: "callsFrom E ?P i ?xs w = (rs1, w1)" "grows a a1 (zip ?xs rs1)"
      by blast
    have split: "drop i repositories = ?xs @ ?ys"
      by (simp add: add.commute [of i B] flip: drop_drop)
    obtain rs2 w2 where c2: "callsFrom E ?P (i + length ?xs) ?ys w1 = (rs2, w2)"
      by (cases "callsFrom E ?P (i + length ?xs) ?ys w1")
    have "callsFrom E ?P i (?xs @ ?ys) w = (rs1 @ rs2, w2)"
      using c1(1) c2 by (simp add: callsFrom_append)
    with less.prems(2) split have eq: "rs = rs1 @ rs2" "w' = w2" by simp_all
    have c2': "callsFrom E ?P (i + B) ?ys w1 = (rs2, w2)"
    proof (cases "i + B \<le> ?N")
      case True
      then have "length ?xs = B" by simp
      with c2 show ?thesis by simp
    next
      case False
      then have "?ys = []" by simp
      with c2 show ?thesis by simp
    qed
    have d: "B dvd i + B" using less.prems(1) by simp
    from True assms have m: "?N - (i + B) < ?N - i" by simp
    from less.hyps [OF m d c2', of a1] obtain a' where
      n: "batchLoop E B repositories (i + B) (a1, w1) = Some (a', w2)"
         "grows a1 a' (zip ?ys rs2)"
      by blast
    have loop: "batchLoop E B repositories i (a, w) = Some (a', w')"
      using True s1 n(1) eq(2) by (subst batchLoop.simps) simp
    have l1: "length rs1 = length ?xs"
      using c1(1) by (rule callsFrom_length)
    have z: "zip (drop i repositories) rs = zip ?xs rs1 @ zip ?ys rs2"
      using l1 by (subst split) (simp add: eq(1))
    from grows_trans [OF c1(2) n(2)] loop z show ?thesis
      by (intro exI [of _ a']) simp
  qed
qed

lemma batchLoop_calls:
  assumes "0 < B" and "callsInOrder E B repositories w = (rs, w')"
  shows "\<exists>a. batchLoop E B repositories 0 (initRun, w) = Some (a, w') \<and>
           length rs = length repositories \<and>
           attempts a = zip repositories rs \<and>
           totalOpenIssues a = sum_list (map countOf rs) \<and>
           failedRepos a = failedIds (zip repositories rs)"
proof -
  from assms(2) have c: "callsFrom E (pauseAfter B (length repositories)) 0
      (drop 0 repositories) w = (rs, w')"
    by (simp add: callsInOrder_def)
  have l: "length rs = length repositories"
    using c callsFrom_length by fastforce
  from batchLoop_calls_from [OF assms(1) _ c, of initRun] obtain a where
    r: "batchLoop E B repositories 0 (initRun, w) = Some (a, w')"
       "grows initRun a (zip (drop 0 repositories) rs)"
    by auto
  have "map (\<lambda>x. countOf (snd x)) (zip repositories rs) = map countOf rs"
    using l by (simp add: map_snd_zip flip: map_map comp_def [of countOf snd])
  with r l show ?thesis
    by (intro exI [of _ a]) (simp add: grows_def initRun_def sumCounts_def)
qed

subsection \<open>The entry points on a finished loop\<close>

lemma refreshOpenIssues_eval:
  assumes "supabase E ListRepositories w = (q, w1)"
    and "qerror q = None" and "qdata q = Some repositories"
    and "batchLoop E batchSize repositories 0 (initRun, w1) = Some (a, w2)"
  shows "refreshOpenIssues E (u, w) =
           Some (refreshFinally (report a (setRefreshing ''openIssues'' True u)), w2)"
  using assms by (simp add: refreshOpenIssues_def Let_def)

lemma refreshed_stats:
  "stats (refreshFinally (report a (setRefreshing k True u))) =
     (stats u)\<lparr>openIssues := totalOpenIssues a\<rparr>"
  by (simp add: refreshFinally_def setRefreshing_def report_stats commitOpenIssues_def)

lemma refreshed_toasts:
  "toasts (refreshFinally (report a (setRefreshing k True u))) =
     toasts u @ (if failedRepos a = [] then [] else [warningToast (failedRepos a)])"
  by (simp add: refreshFinally_def setRefreshing_def report_toasts)

lemma fetchStats_eval:
  assumes "countsRead E w0 = Some (cs, w)"
    and "supabase E ListRepositories w = (q, w1)"
    and "qerror q = None" and "qdata q = Some repositories"
    and "mounted w1" and "mounted w2"
    and "batchLoop E batchSize repositories 0 (initRun, w1) = Some (a, w2)"
  shows "\<exists>u0. fetchStats E (u, w0) = Some (report a u0, w2) \<and>
           openIssues (stats u0) = openIssues (stats u) \<and> toasts u0 = toasts u"
proof -
  from assms(1) obtain c1 c2 c3 where
    f: "fetchStats E (u, w0) =
          fetchIssues E (if mounted w then setStats (commitCounts c1 c2 c3) u else u, w)"
    by (auto simp: countsRead_def fetchStats_def split: prod.splits if_splits)
  let ?u0 = "if mounted w then setStats (commitCounts c1 c2 c3) u else u"
  have "fetchIssues E (?u0, w) = Some (report a ?u0, w2)"
    using assms(2-7) by (simp add: fetchIssues_def)
  with f show ?thesis
    by (intro exI [of _ ?u0]) (simp add: setStats_def commitCounts_def)
qed


lemmas calls_defs = callsInOrder_def pauseAfter_def batchSize_def r1_def r2_def r3_def

lemma listed_facts: "qerror listed = None" "qdata listed = Some [r1, r2, r3]"
  by (simp_all add: listed_def)

lemma mounted_world1: "mounted world1"
  by (simp add: world1_def newClient_def world0_def)

subsection \<open>Credential clearing, counted over a run\<close>

lemma request_TokenInvalid_iff:
  "fst (request R c path x) = Inl TokenInvalid \<longleftrightarrow>
     (\<exists>r. fetch R (''https://api.github.com'' @ path)
            (emit (Fetch (''https://api.github.com'' @ path) (token c))
               (removeTokens (limiter c) 1 x)) = Inr r \<and> status r = 401)"
  by (auto simp: request_def Let_def ok_def split: sum.splits)




section \<open>Batches and pauses\<close>




section \<open>Totals and failures\<close>

text \<open>
  C4. Take a run whose repository list was read without error, and the calls the helper
  answers when the repositories are called in list order with the pauses of the loop.
  When every one of those calls resolved to a count, the loop of the source ends in the
  world those calls left, with an empty failed list and the sum of the counts as its
  total; the manual refresh writes that sum into \<open>openIssues\<close> and raises no toast, and
  so does the initial fetch when its three counting queries succeeded and the component
  is still mounted at its two checks.
\<close>

theorem all_succeed_total_is_sum:
  assumes "supabase E ListRepositories w = (q, w1)"
    and "qerror q = None" and "qdata q = Some repositories"
    and "callsInOrder E batchSize repositories w1 = (rs, w2)"
    and "list_all succeeded rs"
  shows "(\<exists>a. batchLoop E batchSize repositories 0 (initRun, w1) = Some (a, w2) \<and>
            failedRepos a = [] \<and> totalOpenIssues a = sum_list (map countOf rs)) \<and>
         (\<exists>u'. refreshOpenIssues E (u, w) = Some (u', w2) \<and>
            stats u' = (stats u)\<lparr>openIssues := sum_list (map countOf rs)\<rparr> \<and>
            toasts u' = toasts u) \<and>
         (countsRead E w0 = Some (cs, w) \<and> mounted w1 \<and> mounted w2 \<longrightarrow>
            (\<exists>v. fetchStats E (u, w0) = Some (v, w2) \<and>
               openIssues (stats v) = sum_list (map countOf rs) \<and>
               toasts v = toasts u))"
proof -
  from batchLoop_calls [OF batchSize_pos assms(4)] obtain a where
    r: "batchLoop E batchSize repositories 0 (initRun, w1) = Some (a, w2)"
       "totalOpenIssues a = sum_list (map countOf rs)"
       "failedRepos a = failedIds (zip repositories rs)"
    by blast
  have "\<And>x. succeeded x \<Longrightarrow> \<not> threw x"
    by (erule succeeded.elims) simp_all
  with assms(5) have "\<forall>x \<in> set rs. \<not> threw x"
    by (auto simp: list_all_iff)
  then have "filter (\<lambda>x. threw (snd x)) (zip repositories rs) = []"
    by (auto simp: filter_empty_conv dest: set_zip_rightD)
  with r(3) have f: "failedRepos a = []" by (simp add: failedIds_def)
  have one: "\<exists>a. batchLoop E batchSize repositories 0 (initRun, w1) = Some (a, w2) \<and>
            failedRepos a = [] \<and> totalOpenIssues a = sum_list (map countOf rs)"
    using r f by blast
  have two: "\<exists>u'. refreshOpenIssues E (u, w) = Some (u', w2) \<and>
            stats u' = (stats u)\<lparr>openIssues := sum_list (map countOf rs)\<rparr> \<and>
            toasts u' = toasts u"
    using refreshOpenIssues_eval [OF assms(1-3) r(1), of u] r(2) f
    by (simp add: refreshed_stats refreshed_toasts)
  have three: "countsRead E w0 = Some (cs, w) \<and> mounted w1 \<and> mounted w2 \<longrightarrow>
            (\<exists>v. fetchStats E (u, w0) = Some (v, w2) \<and>
               openIssues (stats v) = sum_list (map countOf rs) \<and>
               toasts v = toasts u)"
  proof
    assume h: "countsRead E w0 = Some (cs, w) \<and> mounted w1 \<and> mounted w2"
    then have h1: "countsRead E w0 = Some (cs, w)" and h2: "mounted w1" and h3: "mounted w2"
      by simp_all
    from fetchStats_eval [OF h1 assms(1-3) h2 h3 r(1), of u] obtain u0 where
      "fetchStats E (u, w0) = Some (report a u0, w2)"
      "openIssues (stats u0) = openIssues (stats u)" "toasts u0 = toasts u"
      by blast
    with r(2) f show "\<exists>v. fetchStats E (u, w0) = Some (v, w2) \<and>
               openIssues (stats v) = sum_list (map countOf rs) \<and>
               toasts v = toasts u"
      by (intro exI [of _ "report a u0"])
         (simp add: report_stats report_toasts commitOpenIssues_def)
  qed
  from one two three show ?thesis by blast
qed

theorem all_succeed_total_is_sum_witness:
  "supabase envCounts ListRepositories world1 = (listed, world1) \<and>
   qerror listed = None \<and> qdata listed = Some [r1, r2, r3] \<and>
   callsInOrder envCounts batchSize [r1, r2, r3] world1 =
     ([Inr (Some 3), Inr (Some 5), Inr (Some 7)], world1) \<and>
   list_all succeeded [Inr (Some 3), Inr (Some 5), Inr (Some 7)] \<and>
   countsRead envCounts world1 = Some ((Some 3, Some 3, Some 3), world1) \<and>
   mounted world1 \<and>
   (\<exists>a. batchLoop envCounts batchSize [r1, r2, r3] 0 (initRun, world1) = Some (a, world1) \<and>
      failedRepos a = [] \<and> totalOpenIssues a = 15) \<and>
   (\<exists>u'. refreshOpenIssues envCounts (ui0, world1) = Some (u', world1) \<and>
      stats u' = initialStats\<lparr>openIssues := 15\<rparr> \<and> toasts u' = []) \<and>
   (\<exists>v. fetchStats envCounts (ui0, world1) = Some (v, world1) \<and>
      openIssues (stats v) = 15 \<and> toasts v = [])"
proof -
  have l: "supabase envCounts ListRepositories world1 = (listed, world1)"
    by (simp add: envCounts_def dbOf_def listed_def)
  have c: "callsInOrder envCounts batchSize [r1, r2, r3] world1 =
     ([Inr (Some 3), Inr (Some 5), Inr (Some 7)], world1)"
    by (simp add: calls_defs envCounts_def)
  have s: "list_all succeeded [Inr (Some 3), Inr (Some 5), Inr (Some 7)]"
    by simp
  have k: "countsRead envCounts world1 = Some ((Some 3, Some 3, Some 3), world1)"
    by (simp add: countsRead_def envCounts_def dbOf_def)
  from all_succeed_total_is_sum [OF l listed_facts c s, of ui0 world1 "(Some 3, Some 3, Some 3)"]
  show ?thesis
    using l listed_facts c k mounted_world1 by (simp add: ui0_def)
qed

text \<open>
  C6. In such a run, when the calls for the items at positions \<open>i < j\<close> were both
  rejected, with any error, the identifier of item \<open>i\<close> stands before the identifier
  of item \<open>j\<close> in the failed list of the loop, and that list is the one the warning of
  the manual refresh, and of the initial fetch while mounted, is built from.
\<close>

theorem failed_preserves_order:
  assumes "supabase E ListRepositories w = (q, w1)"
    and "qerror q = None" and "qdata q = Some repositories"
    and "callsInOrder E batchSize repositories w1 = (rs, w2)"
    and "i < j" and "j < length repositories"
    and "rs ! i = Inl ei" and "rs ! j = Inl ej"
  shows "\<exists>a p p'. batchLoop E batchSize repositories 0 (initRun, w1) = Some (a, w2) \<and>
           p < p' \<and> p' < length (failedRepos a) \<and>
           failedRepos a ! p = repoId (repositories ! i) \<and>
           failedRepos a ! p' = repoId (repositories ! j) \<and>
           (\<exists>u'. refreshOpenIssues E (u, w) = Some (u', w2) \<and>
              toasts u' = toasts u @ [warningToast (failedRepos a)]) \<and>
           (countsRead E w0 = Some (cs, w) \<and> mounted w1 \<and> mounted w2 \<longrightarrow>
              (\<exists>v. fetchStats E (u, w0) = Some (v, w2) \<and>
                 toasts v = toasts u @ [warningToast (failedRepos a)]))"
proof -
  let ?P = "\<lambda>x. threw (snd x)"
  let ?as = "zip repositories rs"
  let ?p = "length (filter ?P (take i ?as))"
  let ?q = "length (filter ?P (take j ?as))"
  from batchLoop_calls [OF batchSize_pos assms(4)] obtain a where
    r: "batchLoop E batchSize repositories 0 (initRun, w1) = Some (a, w2)"
       "length rs = length repositories"
       "failedRepos a = failedIds ?as"
    by blast
  have ij: "i < length ?as" "j < length ?as" using assms(5,6) r(2) by simp_all
  have ni: "?as ! i = (repositories ! i, rs ! i)" and nj: "?as ! j = (repositories ! j, rs ! j)"
    using assms(5,6) r(2) by simp_all
  have ti: "?P (?as ! i)" and tj: "?P (?as ! j)"
    using ni nj assms(7,8) by simp_all
  have pq: "?p < ?q"
    using assms(5) ij(2) ti by (intro filter_index_mono) simp_all
  from filter_index [OF ij(1), of ?P] ti have
    pi: "?p < length (filter ?P ?as)" "filter ?P ?as ! ?p = ?as ! i"
    by simp_all
  from filter_index [OF ij(2), of ?P] tj have
    qj: "?q < length (filter ?P ?as)" "filter ?P ?as ! ?q = ?as ! j"
    by simp_all
  have order: "?p < ?q \<and> ?q < length (failedRepos a) \<and>
      failedRepos a ! ?p = repoId (repositories ! i) \<and>
      failedRepos a ! ?q = repoId (repositories ! j)"
    using pq pi qj ni nj r(3) by (simp add: failedIds_def)
  then have ne: "failedRepos a \<noteq> []" by auto
  have two: "\<exists>u'. refreshOpenIssues E (u, w) = Some (u', w2) \<and>
              toasts u' = toasts u @ [warningToast (failedRepos a)]"
    using refreshOpenIssues_eval [OF assms(1-3) r(1), of u] ne
    by (simp add: refreshed_toasts)
  have three: "countsRead E w0 = Some (cs, w) \<and> mounted w1 \<and> mounted w2 \<longrightarrow>
              (\<exists>v. fetchStats E (u, w0) = Some (v, w2) \<and>
                 toasts v = toasts u @ [warningToast (failedRepos a)])"
  proof
    assume h: "countsRead E w0 = Some (cs, w) \<and> mounted w1 \<and> mounted w2"
    then have h1: "countsRead E w0 = Some (cs, w)" and h2: "mounted w1" and h3: "mounted w2"
      by simp_all
    from fetchStats_eval [OF h1 assms(1-3) h2 h3 r(1), of u] obtain u0 where
      "fetchStats E (u, w0) = Some (report a u0, w2)" "toasts u0 = toasts u"
      by blast
    with ne show "\<exists>v. fetchStats E (u, w0) = Some (v, w2) \<and>
                 toasts v = toasts u @ [warningToast (failedRepos a)]"
      by (intro exI [of _ "report a u0"]) (simp add: report_toasts)
  qed
  from r(1) order two three show ?thesis
    by (intro exI [of _ a] exI [of _ ?p] exI [of _ ?q]) blast
qed

theorem failed_preserves_order_witness:
  "supabase envFail ListRepositories world1 = (listed, world1) \<and>
   qerror listed = None \<and> qdata listed = Some [r1, r2, r3] \<and>
   callsInOrder envFail batchSize [r1, r2, r3] world1 =
     ([Inl RateLimitExceeded, Inr (Some 4), Inl (ApiError 500 ''Internal Server Error'')],
      world1) \<and>
   (0::nat) < 2 \<and> 2 < length [r1, r2, r3] \<and>
   countsRead envFail world1 = Some ((Some 3, Some 3, Some 3), world1) \<and>
   mounted world1 \<and>
   (\<exists>a p p'. batchLoop envFail batchSize [r1, r2, r3] 0 (initRun, world1) = Some (a, world1) \<and>
      p < p' \<and> p' < length (failedRepos a) \<and>
      failedRepos a ! p = ''a/r1'' \<and> failedRepos a ! p' = ''a/r3'' \<and>
      (\<exists>u'. refreshOpenIssues envFail (ui0, world1) = Some (u', world1) \<and>
         toasts u' = [warningToast (failedRepos a)]) \<and>
      (\<exists>v. fetchStats envFail (ui0, world1) = Some (v, world1) \<and>
         toasts v = [warningToast (failedRepos a)]))"
proof -
  let ?rs = "[Inl RateLimitExceeded, Inr (Some 4), Inl (ApiError 500 ''Internal Server Error'')]"
  have l: "supabase envFail ListRepositories world1 = (listed, world1)"
    by (simp add: envFail_def dbOf_def listed_def)
  have c: "callsInOrder envFail batchSize [r1, r2, r3] world1 = (?rs, world1)"
    by (simp add: calls_defs envFail_def)
  have k: "countsRead envFail world1 = Some ((Some 3, Some 3, Some 3), world1)"
    by (simp add: countsRead_def envFail_def dbOf_def)
  have lt: "(0::nat) < 2" and len: "2 < length [r1, r2, r3]" by simp_all
  have i: "?rs ! 0 = Inl RateLimitExceeded"
    and j: "?rs ! 2 = Inl (ApiError 500 ''Internal Server Error'')"
    by simp_all
  have ids: "repoId ([r1, r2, r3] ! 0) = ''a/r1''" "repoId ([r1, r2, r3] ! 2) = ''a/r3''"
    by (simp_all add: repoId_def r1_def r3_def)
  from failed_preserves_order
    [OF l listed_facts c lt len i j, of ui0 world1 "(Some 3, Some 3, Some 3)"]
  show ?thesis
    using l listed_facts c k mounted_world1 ids by (simp add: ui0_def)
qed

section \<open>Reporting a run\<close>

text \<open>
  C5. A run whose repository list was read without error ends with the toasts it
  started with when the failed list is empty, and with exactly one more, the warning
  built from the whole failed list, when it is not. This holds for the manual refresh,
  and for the initial fetch when the component is still mounted at its two checks.
  The description of the warning is the failed identifiers joined by a comma and a
  space between the two fixed texts, and contains every one of them.
\<close>

theorem one_consolidated_warning:
  assumes "supabase E ListRepositories w = (q, w1)"
    and "qerror q = None" and "qdata q = Some repositories"
  shows "\<exists>a w2 u'. batchLoop E batchSize repositories 0 (initRun, w1) = Some (a, w2) \<and>
           failedRepos a = failedIds (attempts a) \<and>
           refreshOpenIssues E (u, w) = Some (u', w2) \<and>
           toasts u' =
             toasts u @ (if failedRepos a = [] then [] else [warningToast (failedRepos a)]) \<and>
           (mounted w1 \<and> mounted w2 \<longrightarrow>
              (\<exists>v. fetchIssues E (u, w) = Some (v, w2) \<and>
                 toasts v =
                   toasts u @ (if failedRepos a = [] then [] else [warningToast (failedRepos a)]))) \<and>
           description (warningToast (failedRepos a)) =
             ''Failed to fetch issues for: '' @ join '', '' (failedRepos a) @
             ''. Try clicking the refresh button on the Open Issues card to get the correct total.'' \<and>
           (\<forall>x \<in> set (failedRepos a). includesStr (description (warningToast (failedRepos a))) x)"
proof -
  from batchLoop_run [OF batchSize_pos, of E repositories w1] obtain a w2 where
    r: "batchLoop E batchSize repositories 0 (initRun, w1) = Some (a, w2)"
       "failedRepos a = failedIds (attempts a)"
    by blast
  have rf: "refreshOpenIssues E (u, w) =
      Some (refreshFinally (report a (setRefreshing ''openIssues'' True u)), w2)"
    using assms r(1) by (simp add: refreshOpenIssues_def)
  have rt: "toasts (refreshFinally (report a (setRefreshing ''openIssues'' True u))) =
      toasts u @ (if failedRepos a = [] then [] else [warningToast (failedRepos a)])"
    by (simp add: refreshFinally_def setRefreshing_def report_toasts)
  have fi: "mounted w1 \<and> mounted w2 \<longrightarrow> fetchIssues E (u, w) = Some (report a u, w2)"
    using assms r(1) by (simp add: fetchIssues_def)
  have d: "description (warningToast (failedRepos a)) =
             ''Failed to fetch issues for: '' @ join '', '' (failedRepos a) @
             ''. Try clicking the refresh button on the Open Issues card to get the correct total.''"
    by (simp add: warningToast_def)
  have n: "\<forall>x \<in> set (failedRepos a). includesStr (description (warningToast (failedRepos a))) x"
    using warning_names by blast
  show ?thesis
    using r rf rt fi d n report_toasts [of a u]
    by (intro exI [of _ a] exI [of _ w2]
        exI [of _ "refreshFinally (report a (setRefreshing ''openIssues'' True u))"]) simp
qed

theorem one_consolidated_warning_witness:
  "supabase env401 ListRepositories world1 =
     (\<lparr>qcount = Some 3, qdata = Some [r1, r2, r3], qerror = None\<rparr>, world1) \<and>
   (\<exists>u'. refreshOpenIssues env401 (ui0, world1) = Some (u', world401) \<and>
      toasts u' = [warningToast [''a/r2'', ''a/r3'']]) \<and>
   mounted world1 \<and> mounted world401 \<and>
   (\<exists>v. fetchIssues env401 (ui0, world1) = Some (v, world401) \<and>
      toasts v = [warningToast [''a/r2'', ''a/r3'']]) \<and>
   includesStr (description (warningToast [''a/r2'', ''a/r3''])) ''a/r2'' \<and>
   includesStr (description (warningToast [''a/r2'', ''a/r3''])) ''a/r3''"
proof -
  let ?q = "\<lparr>qcount = Some 3, qdata = Some [r1, r2, r3], qerror = None\<rparr>"
  have q: "supabase env401 ListRepositories world1 = (?q, world1)"
    by (simp add: env401_def clientEnv_def dbOf_def)
  have e: "qerror ?q = None" and d: "qdata ?q = Some [r1, r2, r3]"
    by simp_all
  have m: "mounted world1" "mounted world401"
    by (simp_all add: world401_def world1_def newClient_def world0_def)
  from one_consolidated_warning [OF q e d, of ui0] obtain a w2 u' where
    r: "batchLoop env401 batchSize [r1, r2, r3] 0 (initRun, world1) = Some (a, w2)"
       "refreshOpenIssues env401 (ui0, world1) = Some (u', w2)"
       "toasts u' =
          toasts ui0 @ (if failedRepos a = [] then [] else [warningToast (failedRepos a)])"
       "mounted world1 \<and> mounted w2 \<longrightarrow>
          (\<exists>v. fetchIssues env401 (ui0, world1) = Some (v, w2) \<and>
             toasts v =
               toasts ui0 @ (if failedRepos a = [] then [] else [warningToast (failedRepos a)]))"
       "\<forall>x \<in> set (failedRepos a). includesStr (description (warningToast (failedRepos a))) x"
    by (elim conjE exE) (rule that, assumption+)
  from r(1) run401_eval have a: "a = run401" and w: "w2 = world401"
    by simp_all
  have f: "failedRepos run401 = [''a/r2'', ''a/r3'']"
    by (simp add: run401_def)
  from r(2,3,4,5) m show ?thesis
    unfolding a w f using q by (auto simp: ui0_def)
qed

section \<open>A rejected credential\<close>




section \<open>A helper that resolves to null\<close>

text \<open>
  C10. When \<^verbatim>\<open>withGitHub\<close> resolves to \<^verbatim>\<open>null\<close> for a repository, processing that
  repository changes neither the running total nor the failed list. In a finished run,
  an item whose call resolved to \<^verbatim>\<open>null\<close> was attempted, and the total and the failed
  list are what the attempts before it and after it contribute: the item is counted
  neither as a success nor as a failure.
\<close>

theorem null_is_skipped:
  assumes "withGitHub E repo v = (Inr None, v')"
    and "0 < B"
    and "batchLoop E B repositories 0 (initRun, w) = Some (a, w')"
    and "i < length repositories"
    and "snd (attempts a ! i) = Inr None"
  shows "totalOpenIssues (fst (processRepo E repo (b, v))) = totalOpenIssues b \<and>
         failedRepos (fst (processRepo E repo (b, v))) = failedRepos b \<and>
         snd (processRepo E repo (b, v)) = v' \<and>
         fst (attempts a ! i) = repositories ! i \<and>
         totalOpenIssues a =
           sumCounts (take i (attempts a)) + sumCounts (drop (Suc i) (attempts a)) \<and>
         failedRepos a =
           failedIds (take i (attempts a)) @ failedIds (drop (Suc i) (attempts a))"
proof -
  have step: "processRepo E repo (b, v) = (b\<lparr>attempts := attempts b @ [(repo, Inr None)]\<rparr>, v')"
    using assms(1) by (simp add: processRepo_def)
  from batchLoop_run [OF assms(2), of E repositories w] assms(3) have
    r: "map fst (attempts a) = repositories" "totalOpenIssues a = sumCounts (attempts a)"
       "failedRepos a = failedIds (attempts a)"
    by auto
  from r(1) have len: "length (attempts a) = length repositories"
    by (metis length_map)
  with assms(4) have i: "i < length (attempts a)" by simp
  then have split: "attempts a = take i (attempts a) @ attempts a ! i # drop (Suc i) (attempts a)"
    by (rule id_take_nth_drop)
  have one: "sumCounts [attempts a ! i] = 0" "failedIds [attempts a ! i] = []"
    using assms(5) by (simp_all add: sumCounts_def failedIds_def)
  have "sumCounts (attempts a) =
      sumCounts (take i (attempts a)) + (sumCounts [attempts a ! i] +
        sumCounts (drop (Suc i) (attempts a)))"
    by (subst split) (simp only: sumCounts_append [symmetric] append_Cons append_Nil)
  then have t: "totalOpenIssues a =
      sumCounts (take i (attempts a)) + sumCounts (drop (Suc i) (attempts a))"
    using r(2) one(1) by simp
  have "failedIds (attempts a) =
      failedIds (take i (attempts a)) @ (failedIds [attempts a ! i] @
        failedIds (drop (Suc i) (attempts a)))"
    by (subst split) (simp only: failedIds_append [symmetric] append_Cons append_Nil)
  then have f: "failedRepos a =
      failedIds (take i (attempts a)) @ failedIds (drop (Suc i) (attempts a))"
    using r(3) one(2) by simp
  have n: "fst (attempts a ! i) = repositories ! i"
    using r(1) i by (metis nth_map)
  from step t f n show ?thesis by simp
qed

theorem null_is_skipped_witness:
  "withGitHub envNull r2 world1 = (Inr None, world1) \<and>
   0 < batchSize \<and>
   batchLoop envNull batchSize [r1, r2, r3] 0 (initRun, world1) = Some (runNull, world1) \<and>
   (1::nat) < length [r1, r2, r3] \<and>
   snd (attempts runNull ! 1) = Inr None \<and>
   totalOpenIssues (fst (processRepo envNull r2 (runOk, world1))) = 9 \<and>
   failedRepos (fst (processRepo envNull r2 (runOk, world1))) = [] \<and>
   totalOpenIssues runNull = 3 + 3 \<and>
   failedRepos runNull = []"
proof -
  have h: "withGitHub envNull r2 world1 = (Inr None, world1)"
    by (simp add: envNull_def r2_def)
  have l: "(1::nat) < length [r1, r2, r3]" by simp
  have n: "snd (attempts runNull ! 1) = Inr None"
    by (simp add: runNull_def)
  from null_is_skipped [OF h batchSize_pos runNull_eval l n, of runOk]
  show ?thesis
    using h batchSize_pos runNull_eval n
    by (simp add: runNull_def runOk_def sumCounts_def failedIds_def)
qed

section \<open>Commits into the view state\<close>

text \<open>
  C7. The commit of an aggregated total, as an updater and as the statements after the
  loop, leaves \<open>trackedRepos\<close>, \<open>analyzedRepos\<close> and \<open>activeAutomations\<close> as they
  were; the updaters of the two realtime handlers, and the handlers as a whole, leave
  \<open>openIssues\<close> as it was.
\<close>

theorem commits_are_scoped:
  "trackedRepos (commitOpenIssues t s) = trackedRepos s \<and>
   analyzedRepos (commitOpenIssues t s) = analyzedRepos s \<and>
   activeAutomations (commitOpenIssues t s) = activeAutomations s \<and>
   trackedRepos (stats (report a u)) = trackedRepos (stats u) \<and>
   analyzedRepos (stats (report a u)) = analyzedRepos (stats u) \<and>
   activeAutomations (stats (report a u)) = activeAutomations (stats u) \<and>
   openIssues (commitRepoCounts tr an s) = openIssues s \<and>
   openIssues (commitAutomations ac s) = openIssues s \<and>
   openIssues (stats (fst (repoChannelHandler E (u, w)))) = openIssues (stats u) \<and>
   openIssues (stats (fst (jobsChannelHandler E (u, w)))) = openIssues (stats u)"
  by (simp add: report_stats commitOpenIssues_def commitRepoCounts_def commitAutomations_def
      repoChannelHandler_def jobsChannelHandler_def setStats_def split: prod.splits)

text \<open>
  C8. Committing the same total a second time leaves the statistics as the first commit
  left them: for the updater, for \<^verbatim>\<open>setStats\<close> with it, and for the statistics after
  the statements that follow the loop.
\<close>

theorem commit_idempotent:
  "commitOpenIssues (totalOpenIssues a) (commitOpenIssues (totalOpenIssues a) s) =
     commitOpenIssues (totalOpenIssues a) s \<and>
   setStats (commitOpenIssues (totalOpenIssues a))
     (setStats (commitOpenIssues (totalOpenIssues a)) u) =
     setStats (commitOpenIssues (totalOpenIssues a)) u \<and>
   stats (report a (report a u)) = stats (report a u)"
  by (simp add: report_stats commitOpenIssues_def setStats_def)

section \<open>Leaving the page during a run\<close>

text \<open>
  C3, at an input where the code departs from it. The user leaves the page during the
  first call of a manual refresh. The initial fetch, run on the same input, checks
  \<open>mounted\<close> before its commit and leaves the view state alone; the manual refresh
  has no such check, writes the total 9 into the statistics and raises the warning
  although \<open>mounted\<close> is false.
\<close>

theorem refresh_commits_after_unmount:
  "mounted world1 \<and> \<not> mounted worldLeave \<and>
   refreshOpenIssues envLeave (ui0, world1) = Some (uiLeave, worldLeave) \<and>
   stats uiLeave = initialStats\<lparr>openIssues := 9\<rparr> \<and>
   stats ui0 = initialStats \<and>
   toasts uiLeave = [warningToast [''a/r2'']] \<and>
   toasts ui0 = [] \<and>
   fetchIssues envLeave (ui0, world1) = Some (ui0, worldLeave)"
  by (simp add: refreshOpenIssues_def fetchIssues_def envLeave_def dbOf_def batchLoop.simps run_defs
      refreshFinally_def report_def setStats_def setRefreshing_def raiseToast_def
      commitOpenIssues_def ui0_def uiLeave_def worldLeave_def world1_def newClient_def
      world0_def initialStats_def Let_def)

section \<open>Requests outside the client\<close>

text \<open>
  C9, at an input where the code departs from it. A client of user \<open>u1\<close> exists, with
  its limiter at address 0. The exported function \<^verbatim>\<open>getRepository\<close> sends its request
  with the cached credential and takes no token from any limiter; the client's method
  of the same name takes one token before the same request.
\<close>

theorem getRepository_bypasses_limiter:
  "userLimiters world1 ''u1'' = Some 0 \<and>
   limiterHeap world1 = [newLimiter] \<and>
   trace world1 = [] \<and>
   getRepository remoteOk ''a'' ''r1'' world1 =
     (Inr ''a/r1'', world1\<lparr>trace := [Fetch ''https://api.github.com/repos/a/r1'' ''t0'']\<rparr>) \<and>
   clientGetRepository remoteOk client1 ''a'' ''r1'' world1 =
     (Inr ''a/r1'',
      world1\<lparr>limiterHeap := [newLimiter\<lparr>tokensRemoved := 1\<rparr>],
        trace := [RemoveTokens 0 1, Fetch ''https://api.github.com/repos/a/r1'' ''t0'']\<rparr>)"
  by (simp add: getRepository_def clientGetRepository_def request_def remoteOk_def
      cachedGetToken_def removeTokens_def emit_def ok_def client1_def world1_def newClient_def
      world0_def newLimiter_def Let_def)

end
